theory Spec2Isabelle
  imports Main
begin

section \<open>JavaScript values\<close>

text \<open>
  The values a frame can carry after \<^verbatim>\<open>JSON.parse\<close>, together with \<^verbatim>\<open>undefined\<close>,
  which is what reading an absent property gives. An object is the list of its own
  members, each name once. Numbers are kept as integers, of a magnitude where a double
  is exact and prints in decimal. A string is the list of its UTF-16 code units, for
  texts whose code units are below 256.
\<close>

datatype jsval =
    JUndefined
  | JNull
  | JBool bool
  | JNum int
  | JStr string
  | JArr "jsval list"
  | JObj "(string \<times> jsval) list"

datatype js_error = SyntaxError | TypeError

text \<open>JavaScript truthiness, as used by \<^verbatim>\<open>if (x)\<close> and \<^verbatim>\<open>x || y\<close>.\<close>

fun truthy :: "jsval \<Rightarrow> bool" where
  "truthy JUndefined = False"
| "truthy JNull = False"
| "truthy (JBool b) = b"
| "truthy (JNum n) = (n \<noteq> 0)"
| "truthy (JStr s) = (s \<noteq> [])"
| "truthy (JArr xs) = True"
| "truthy (JObj kvs) = True"

definition js_or :: "jsval \<Rightarrow> jsval \<Rightarrow> jsval" where
  "js_or a b = (if truthy a then a else b)"

text \<open>
  Property access \<^verbatim>\<open>data.f\<close>. On \<^verbatim>\<open>null\<close> and \<^verbatim>\<open>undefined\<close> it throws a TypeError;
  on an object it is the member, or \<^verbatim>\<open>undefined\<close> when there is none; on the other
  values none of the names the handlers read (type, status, message, action, step,
  maxSteps, screenshot, url, error, response) is defined, so the result is
  \<^verbatim>\<open>undefined\<close>.
\<close>

fun js_get :: "jsval \<Rightarrow> string \<Rightarrow> js_error + jsval" where
  "js_get JUndefined f = Inl TypeError"
| "js_get JNull f = Inl TypeError"
| "js_get (JObj kvs) f = Inr (case map_of kvs f of None \<Rightarrow> JUndefined | Some v \<Rightarrow> v)"
| "js_get v f = Inr JUndefined"

text \<open>The same access where it is already known not to throw.\<close>

definition fld :: "jsval \<Rightarrow> string \<Rightarrow> jsval" where
  "fld data f = (case js_get data f of Inl e \<Rightarrow> JUndefined | Inr v \<Rightarrow> v)"

text \<open>
  The conversion to a string that a template literal applies to a value. None of these
  values is callable, so on an object the conversion finds \<^verbatim>\<open>Object.prototype.toString\<close>
  unless the object has a member named toString of its own; with such a member neither
  it nor \<^verbatim>\<open>valueOf\<close> gives a primitive and a TypeError is thrown. An array is joined
  with commas, \<^verbatim>\<open>null\<close> elements giving the empty string, and an element that cannot
  be converted throws in turn.
\<close>

fun dec_digits :: "nat \<Rightarrow> string" where
  "dec_digits n =
     (if n < 10 then [''0123456789'' ! n]
      else dec_digits (n div 10) @ [''0123456789'' ! (n mod 10)])"

declare dec_digits.simps [simp del]

definition number_toString :: "int \<Rightarrow> string" where
  "number_toString i =
     (if i < 0 then CHR ''-'' # dec_digits (nat (- i)) else dec_digits (nat i))"

fun js_toString :: "jsval \<Rightarrow> js_error + string"
  and js_join :: "jsval list \<Rightarrow> js_error + string" where
  "js_toString JUndefined = Inr ''undefined''"
| "js_toString JNull = Inr ''null''"
| "js_toString (JBool b) = Inr (if b then ''true'' else ''false'')"
| "js_toString (JNum n) = Inr (number_toString n)"
| "js_toString (JStr s) = Inr s"
| "js_toString (JArr xs) = js_join xs"
| "js_toString (JObj kvs) =
     (if map_of kvs ''toString'' = None then Inr ''[object Object]'' else Inl TypeError)"
| "js_join [] = Inr []"
| "js_join (x # xs) =
     (case (if x = JNull \<or> x = JUndefined then Inr [] else js_toString x) of
        Inl e \<Rightarrow> Inl e
      | Inr s \<Rightarrow>
          (if xs = [] then Inr s
           else case js_join xs of Inl e \<Rightarrow> Inl e | Inr r \<Rightarrow> Inr (s @ '','' @ r)))"

text \<open>
  An inbound frame is the text of \<^verbatim>\<open>event.data\<close>. \<^verbatim>\<open>JSON.parse\<close> is the platform's:
  a frame is given by what it parses to, or as a text that does not parse.
\<close>

datatype frame = Malformed | Json jsval

fun JSON_parse :: "frame \<Rightarrow> js_error + jsval" where
  "JSON_parse Malformed = Inl SyntaxError"
| "JSON_parse (Json v) = Inr v"

section \<open>The store (store.js)\<close>

text \<open>
  \<^verbatim>\<open>automationStatus\<close> is \<^verbatim>\<open>null\<close> or an object with the members status, message,
  action, step and maxSteps; a member the object literal does not list reads as
  \<^verbatim>\<open>undefined\<close>.
\<close>

record status_obj =
  status :: jsval
  message :: jsval
  action :: jsval
  step :: jsval
  maxSteps :: jsval

record step_obj =
  step_action :: jsval
  step_message :: jsval
  step_screenshot :: jsval

record chat_message =
  msg_id :: nat
  role :: string
  content :: jsval
  is_error :: bool

record store =
  messages :: "chat_message list"
  currentMode :: string
  currentUrl :: jsval
  isAutomating :: bool
  automationStatus :: "status_obj option"
  automationSteps :: "step_obj list"

definition store_init :: store where
  "store_init =
     \<lparr>messages = [], currentMode = ''assist'', currentUrl = JNull,
      isAutomating = False, automationStatus = None, automationSteps = []\<rparr>"

definition addMessage :: "chat_message \<Rightarrow> store \<Rightarrow> store" where
  "addMessage m st = st\<lparr>messages := messages st @ [m]\<rparr>"

definition setMode :: "string \<Rightarrow> store \<Rightarrow> store" where
  "setMode m st = st\<lparr>currentMode := m\<rparr>"

definition setUrl :: "jsval \<Rightarrow> store \<Rightarrow> store" where
  "setUrl u st = st\<lparr>currentUrl := u\<rparr>"

definition setIsAutomating :: "bool \<Rightarrow> store \<Rightarrow> store" where
  "setIsAutomating b st = st\<lparr>isAutomating := b\<rparr>"

definition setAutomationStatus :: "status_obj option \<Rightarrow> store \<Rightarrow> store" where
  "setAutomationStatus s st = st\<lparr>automationStatus := s\<rparr>"

definition addAutomationStep :: "step_obj \<Rightarrow> store \<Rightarrow> store" where
  "addAutomationStep x st = st\<lparr>automationSteps := automationSteps st @ [x]\<rparr>"

definition clearAutomationSteps :: "store \<Rightarrow> store" where
  "clearAutomationSteps st = st\<lparr>automationSteps := []\<rparr>"

definition resetAutomationState :: "store \<Rightarrow> store" where
  "resetAutomationState st =
     st\<lparr>isAutomating := False, automationStatus := None, automationSteps := []\<rparr>"

text \<open>
  \<^verbatim>\<open>steps.slice(-3)\<close> of LiveStepsIndicator: the last three steps, or all of them when
  there are fewer.
\<close>

definition slice_last3 :: "'a list \<Rightarrow> 'a list" where
  "slice_last3 xs = drop (length xs - 3) xs"

section \<open>The component (App.jsx)\<close>

datatype readyState = CONNECTING | OPEN | CLOSING | CLOSED

datatype callback = ResetAutomation | Reconnect

text \<open>
  A pending \<^verbatim>\<open>setTimeout\<close>: its id, the time it is due (in ms) and what it runs.
\<close>

record timeout =
  timer_id :: nat
  due :: nat
  cb :: callback

text \<open>
  The state of the component and of the platform objects it holds: the store, the
  \<^verbatim>\<open>useState\<close> cells, the three refs, the sockets created so far (a socket is its
  index, the list holds each one's \<^verbatim>\<open>readyState\<close>), the pending timeouts, the ping
  interval, and the clock. \<open>mountWs\<close> is the \<^verbatim>\<open>ws\<close> binding of the mount effect, which
  its cleanup closes. \<open>closureStatus\<close> is the \<^verbatim>\<open>automationStatus\<close> binding the socket
  handlers close over: the mount effect has an empty dependency array, so it runs
  \<^verbatim>\<open>connectWebSocket\<close> of the first render only, and the reconnect timer calls that
  same function again.
\<close>

record app =
  store :: store
  input :: string
  isLoading :: bool
  browserUrl :: jsval
  browserScreenshot :: "string option"
  wsRef :: "nat option"
  reconnectTimeoutRef :: "nat option"
  isConnectingRef :: bool
  mountWs :: "nat option"
  closureStatus :: "status_obj option"
  sockets :: "readyState list"
  timeouts :: "timeout list"
  nextTimer :: nat
  pingInterval :: bool
  pings :: "nat list"
  clock :: nat

definition app_init :: app where
  "app_init =
     \<lparr>store = store_init, input = [], isLoading = False, browserUrl = JStr ''about:blank'',
      browserScreenshot = None, wsRef = None, reconnectTimeoutRef = None,
      isConnectingRef = False, mountWs = None, closureStatus = None, sockets = [],
      timeouts = [], nextTimer = 1, pingInterval = False, pings = [], clock = 0\<rparr>"

definition in_store :: "(store \<Rightarrow> store) \<Rightarrow> app \<Rightarrow> app" where
  "in_store f a = a\<lparr>store := f (store a)\<rparr>"

text \<open>
  \<^verbatim>\<open>setTimeout\<close> returns a fresh positive id (the value of \<open>nextTimer\<close> before the
  call); \<^verbatim>\<open>clearTimeout\<close> drops the timeout with the given id, if it is still pending.
\<close>

definition setTimeout :: "callback \<Rightarrow> nat \<Rightarrow> app \<Rightarrow> app" where
  "setTimeout c delay a =
     a\<lparr>timeouts := timeouts a @ [\<lparr>timer_id = nextTimer a, due = clock a + delay, cb = c\<rparr>],
       nextTimer := Suc (nextTimer a)\<rparr>"

definition clearTimeout :: "nat \<Rightarrow> app \<Rightarrow> app" where
  "clearTimeout i a = a\<lparr>timeouts := filter (\<lambda>t. timer_id t \<noteq> i) (timeouts a)\<rparr>"

text \<open>A ref holding a timer id is truthy when it is not \<^verbatim>\<open>null\<close> and the id is not 0.\<close>

definition ref_set :: "nat option \<Rightarrow> bool" where
  "ref_set r = (case r of None \<Rightarrow> False | Some i \<Rightarrow> i \<noteq> 0)"

definition readyState_of :: "app \<Rightarrow> nat \<Rightarrow> readyState" where
  "readyState_of a w = (if w < length (sockets a) then sockets a ! w else CLOSED)"

definition set_readyState :: "nat \<Rightarrow> readyState \<Rightarrow> app \<Rightarrow> app" where
  "set_readyState w r a = a\<lparr>sockets := (sockets a)[w := r]\<rparr>"

subsection \<open>connectWebSocket and the socket handlers\<close>

text \<open>
  \<^verbatim>\<open>connectWebSocket\<close> returns the socket: the one in \<open>wsRef\<close> (possibly \<^verbatim>\<open>null\<close>) when
  an attempt is in flight or the socket in \<open>wsRef\<close> is open, else a new one, which
  starts in state CONNECTING.
\<close>

definition connectWebSocket :: "app \<Rightarrow> nat option \<times> app" where
  "connectWebSocket a =
     (if isConnectingRef a \<or>
         (case wsRef a of None \<Rightarrow> False | Some w \<Rightarrow> readyState_of a w = OPEN)
      then (wsRef a, a)
      else (Some (length (sockets a)),
            a\<lparr>isConnectingRef := True, sockets := sockets a @ [CONNECTING]\<rparr>))"

definition onopen :: "nat \<Rightarrow> app \<Rightarrow> app" where
  "onopen w a =
     (let a1 = a\<lparr>wsRef := Some w, isConnectingRef := False\<rparr>
      in if ref_set (reconnectTimeoutRef a1)
         then (clearTimeout (the (reconnectTimeoutRef a1)) a1)\<lparr>reconnectTimeoutRef := None\<rparr>
         else a1)"

text \<open>
  The body of the \<^verbatim>\<open>try\<close> block of \<^verbatim>\<open>ws.onmessage\<close>. Three places can throw:
  \<^verbatim>\<open>JSON.parse\<close>, the read of \<^verbatim>\<open>data.type\<close>, and the template literal that builds the
  data URL of a screenshot, which converts \<^verbatim>\<open>data.screenshot\<close> to a string. Each one
  comes before any state is written. The \<^verbatim>\<open>switch\<close> compares with \<^verbatim>\<open>===\<close>, so a case
  applies when the type is that very string.
\<close>

definition onmessage_try :: "frame \<Rightarrow> app \<Rightarrow> js_error + app" where
  "onmessage_try fr a =
     (case JSON_parse fr of
        Inl e \<Rightarrow> Inl e
      | Inr data \<Rightarrow>
         (case js_get data ''type'' of
            Inl e \<Rightarrow> Inl e
          | Inr ty \<Rightarrow>
              if ty = JStr ''automation_start'' then
                Inr (in_store (setAutomationStatus (Some
                         \<lparr>status = fld data ''status'', message = fld data ''message'',
                          action = JUndefined, step = JUndefined, maxSteps = JUndefined\<rparr>))
                       (in_store clearAutomationSteps (in_store (setIsAutomating True) a)))
              else if ty = JStr ''automation_status'' then
                Inr (in_store (setAutomationStatus (Some
                         \<lparr>status = fld data ''status'', message = fld data ''message'',
                          action = fld data ''action'', step = fld data ''step'',
                          maxSteps = fld data ''maxSteps''\<rparr>)) a)
              else if ty = JStr ''screenshot_update'' then
                (case (if truthy (fld data ''screenshot'') then
                         (case js_toString (fld data ''screenshot'') of
                            Inl e \<Rightarrow> Inl e
                          | Inr s \<Rightarrow>
                              Inr (in_store (addAutomationStep
                                     \<lparr>step_action =
                                        js_or (case closureStatus a of None \<Rightarrow> JUndefined
                                               | Some st \<Rightarrow> action st) (JStr ''update''),
                                      step_message =
                                        js_or (case closureStatus a of None \<Rightarrow> JUndefined
                                               | Some st \<Rightarrow> message st) (JStr ''Updated''),
                                      step_screenshot = fld data ''screenshot''\<rparr>)
                                   (a\<lparr>browserScreenshot :=
                                        Some (''data:image/png;base64,'' @ s)\<rparr>)))
                       else Inr a) of
                   Inl e \<Rightarrow> Inl e
                 | Inr a1 \<Rightarrow>
                     Inr (if truthy (fld data ''url'')
                          then in_store (setUrl (fld data ''url''))
                                 (a1\<lparr>browserUrl := fld data ''url''\<rparr>)
                          else a1))
              else if ty = JStr ''automation_complete'' then
                Inr (setTimeout ResetAutomation 2000
                       (in_store (setAutomationStatus (Some
                           \<lparr>status = JStr ''Complete'', message = JStr ''Task finished'',
                            action = JStr ''done'', step = JUndefined,
                            maxSteps = JUndefined\<rparr>)) a))
              else if ty = JStr ''automation_error'' then
                Inr (setTimeout ResetAutomation 3000
                       (in_store (setAutomationStatus (Some
                           \<lparr>status = JStr ''Error'', message = fld data ''error'',
                            action = JStr ''error'', step = JUndefined,
                            maxSteps = JUndefined\<rparr>)) a))
              else Inr a))"

text \<open>\<^verbatim>\<open>ws.onmessage\<close>: the \<^verbatim>\<open>catch\<close> logs the error and goes on with the state as it was.\<close>

definition onmessage :: "frame \<Rightarrow> app \<Rightarrow> app" where
  "onmessage fr a = (case onmessage_try fr a of Inl e \<Rightarrow> a | Inr a' \<Rightarrow> a')"

definition onclose :: "app \<Rightarrow> app" where
  "onclose a =
     (let a1 = a\<lparr>wsRef := None, isConnectingRef := False\<rparr>
      in if ref_set (reconnectTimeoutRef a1) then a1
         else (setTimeout Reconnect 3000 a1)\<lparr>reconnectTimeoutRef := Some (nextTimer a1)\<rparr>)"

definition onerror :: "app \<Rightarrow> app" where
  "onerror a = a\<lparr>isConnectingRef := False\<rparr>"

subsection \<open>Timers\<close>

text \<open>
  What a timeout runs: the reset scheduled by a complete or error frame, or the
  reconnect scheduled by \<^verbatim>\<open>ws.onclose\<close>.
\<close>

definition run_callback :: "callback \<Rightarrow> app \<Rightarrow> app" where
  "run_callback c a =
     (case c of
        ResetAutomation \<Rightarrow> in_store resetAutomationState a
      | Reconnect \<Rightarrow> snd (connectWebSocket (a\<lparr>reconnectTimeoutRef := None\<rparr>)))"

text \<open>
  The platform runs due timeouts in the order of their due times, and in the order of
  their creation when these are equal (the list is in creation order).
\<close>

fun earliest :: "timeout list \<Rightarrow> timeout option" where
  "earliest [] = None"
| "earliest (t # ts) =
     (case earliest ts of
        None \<Rightarrow> Some t
      | Some u \<Rightarrow> if due t \<le> due u then Some t else Some u)"

definition next_due :: "nat \<Rightarrow> app \<Rightarrow> timeout option" where
  "next_due target a = earliest (filter (\<lambda>t. due t \<le> target) (timeouts a))"

definition fire :: "timeout \<Rightarrow> app \<Rightarrow> app" where
  "fire t a =
     run_callback (cb t)
       (a\<lparr>timeouts := remove1 t (timeouts a), clock := max (clock a) (due t)\<rparr>)"

lemma earliest_mem: "earliest ts = Some t \<Longrightarrow> t \<in> set ts"
  by (induction ts arbitrary: t) (auto split: option.splits if_splits)

lemma next_due_mem: "next_due target a = Some t \<Longrightarrow> t \<in> set (timeouts a)"
  unfolding next_due_def by (drule earliest_mem) simp

lemma timeouts_connectWebSocket [simp]: "timeouts (snd (connectWebSocket a)) = timeouts a"
  by (simp add: connectWebSocket_def)

lemma timeouts_run_callback [simp]: "timeouts (run_callback c a) = timeouts a"
  by (cases c) (simp_all add: run_callback_def in_store_def)

lemma timeouts_fire [simp]: "timeouts (fire t a) = remove1 t (timeouts a)"
  by (simp add: fire_def)

function run_until :: "nat \<Rightarrow> app \<Rightarrow> app" where
  "run_until target a =
     (case next_due target a of
        None \<Rightarrow> a\<lparr>clock := max (clock a) target\<rparr>
      | Some t \<Rightarrow> run_until target (fire t a))"
  by pat_completeness auto
termination
proof (relation "measure (\<lambda>(target, a). length (timeouts a))")
  show "wf (measure (\<lambda>(target, a). length (timeouts a)))"
    by simp
next
  fix target :: nat and a :: app and t :: timeout
  assume "next_due target a = Some t"
  then have "t \<in> set (timeouts a)"
    by (rule next_due_mem)
  then have "length (remove1 t (timeouts a)) < length (timeouts a)"
    by (simp add: length_remove1) (cases "timeouts a"; simp)
  then show "((target, fire t a), (target, a)) \<in> measure (\<lambda>(target, a). length (timeouts a))"
    by simp
qed

declare run_until.simps [simp del]

definition elapse :: "nat \<Rightarrow> app \<Rightarrow> app" where
  "elapse d a = run_until (clock a + d) a"

subsection \<open>The mount effect and its cleanup\<close>

definition mount :: "app \<Rightarrow> app" where
  "mount a =
     (case connectWebSocket (a\<lparr>closureStatus := automationStatus (store a)\<rparr>) of
        (ws, a1) \<Rightarrow> a1\<lparr>mountWs := ws, pingInterval := True\<rparr>)"

definition ping_tick :: "app \<Rightarrow> app" where
  "ping_tick a =
     (if pingInterval a then
        (case wsRef a of
           None \<Rightarrow> a
         | Some w \<Rightarrow> if readyState_of a w = OPEN then a\<lparr>pings := pings a @ [w]\<rparr> else a)
      else a)"

text \<open>
  The cleanup: \<^verbatim>\<open>clearInterval\<close>, \<^verbatim>\<open>clearTimeout\<close> of the reconnect timer when the ref
  is set (the ref itself is left as it is), and \<^verbatim>\<open>ws.close()\<close> on the socket of the
  mount when that one is open, which puts it in state CLOSING; the platform delivers
  its close event afterwards.
\<close>

definition cleanup :: "app \<Rightarrow> app" where
  "cleanup a =
     (let a1 = a\<lparr>pingInterval := False\<rparr>;
          a2 = (if ref_set (reconnectTimeoutRef a1)
                then clearTimeout (the (reconnectTimeoutRef a1)) a1 else a1)
      in case mountWs a2 of
           None \<Rightarrow> a2
         | Some w \<Rightarrow> if readyState_of a2 w = OPEN then set_readyState w CLOSING a2 else a2)"

subsection \<open>handleSend\<close>

text \<open>
  The strings of the model are texts of code units below 256. There \<^verbatim>\<open>toLowerCase\<close>
  maps A..Z and the capital letters U+00C0..U+00DE (but U+00D7, the multiplication
  sign) to the letter 32 places on, unit by unit; \<^verbatim>\<open>trim\<close> strips white space and line
  terminators at both ends, which below 256 are U+0009..U+000D, the space and the
  no-break space U+00A0; and \<^verbatim>\<open>includes\<close> is the search for a substring.
\<close>

definition upper_units :: string where
  "upper_units =
     ''ABCDEFGHIJKLMNOPQRSTUVWXYZ'' @
     [CHR 0xC0, CHR 0xC1, CHR 0xC2, CHR 0xC3, CHR 0xC4, CHR 0xC5, CHR 0xC6, CHR 0xC7,
      CHR 0xC8, CHR 0xC9, CHR 0xCA, CHR 0xCB, CHR 0xCC, CHR 0xCD, CHR 0xCE, CHR 0xCF,
      CHR 0xD0, CHR 0xD1, CHR 0xD2, CHR 0xD3, CHR 0xD4, CHR 0xD5, CHR 0xD6, CHR 0xD8,
      CHR 0xD9, CHR 0xDA, CHR 0xDB, CHR 0xDC, CHR 0xDD, CHR 0xDE]"

definition lower_units :: string where
  "lower_units =
     ''abcdefghijklmnopqrstuvwxyz'' @
     [CHR 0xE0, CHR 0xE1, CHR 0xE2, CHR 0xE3, CHR 0xE4, CHR 0xE5, CHR 0xE6, CHR 0xE7,
      CHR 0xE8, CHR 0xE9, CHR 0xEA, CHR 0xEB, CHR 0xEC, CHR 0xED, CHR 0xEE, CHR 0xEF,
      CHR 0xF0, CHR 0xF1, CHR 0xF2, CHR 0xF3, CHR 0xF4, CHR 0xF5, CHR 0xF6, CHR 0xF8,
      CHR 0xF9, CHR 0xFA, CHR 0xFB, CHR 0xFC, CHR 0xFD, CHR 0xFE]"

definition lower_char :: "char \<Rightarrow> char" where
  "lower_char c = (case map_of (zip upper_units lower_units) c of None \<Rightarrow> c | Some l \<Rightarrow> l)"

definition toLowerCase :: "string \<Rightarrow> string" where
  "toLowerCase s = map lower_char s"

definition is_space :: "char \<Rightarrow> bool" where
  "is_space c =
     (c \<in> set [CHR 0x09, CHR 0x0A, CHR 0x0B, CHR 0x0C, CHR 0x0D, CHR '' '', CHR 0xA0])"

definition trim :: "string \<Rightarrow> string" where
  "trim s = rev (dropWhile is_space (rev (dropWhile is_space s)))"

fun startsWith :: "string \<Rightarrow> string \<Rightarrow> bool" where
  "startsWith s [] = True"
| "startsWith [] (c # cs) = False"
| "startsWith (x # xs) (c # cs) = (x = c \<and> startsWith xs cs)"

fun js_includes :: "string \<Rightarrow> string \<Rightarrow> bool" where
  "js_includes [] sub = (sub = [])"
| "js_includes (x # xs) sub = (startsWith (x # xs) sub \<or> js_includes xs sub)"

text \<open>
  The synchronous part of \<^verbatim>\<open>handleSend\<close>, up to the \<^verbatim>\<open>fetch\<close>. It reads \<^verbatim>\<open>input\<close>,
  \<^verbatim>\<open>isLoading\<close> and \<^verbatim>\<open>currentMode\<close> from the render that created it, so they are
  arguments. \<^verbatim>\<open>Date.now()\<close> is the clock. Of a chat message the model keeps the id, the
  role, the content and the error flag; nothing else of it is read by the code modelled
  here.
\<close>

definition handleSend :: "string \<Rightarrow> bool \<Rightarrow> string \<Rightarrow> app \<Rightarrow> app" where
  "handleSend inp loading mode a =
     (if trim inp = [] \<or> loading then a
      else
        (let a1 = in_store (addMessage
                     \<lparr>msg_id = clock a, role = ''user'', content = JStr inp,
                      is_error = False\<rparr>) a;
             a2 = a1\<lparr>input := [], isLoading := True\<rparr>
         in if mode = ''automate'' \<or> js_includes (toLowerCase inp) ''navigate'' \<or>
               js_includes (toLowerCase inp) ''go to'' \<or>
               js_includes (toLowerCase inp) ''open''
            then in_store (setAutomationStatus (Some
                     \<lparr>status = JStr ''Working...'',
                      message = JStr ''Preparing to assist you'',
                      action = JUndefined, step = JUndefined, maxSteps = JUndefined\<rparr>))
                   (in_store (setIsAutomating True) a2)
            else a2))"

text \<open>
  The rest of \<^verbatim>\<open>handleSend\<close>, run when the \<^verbatim>\<open>fetch\<close> settles: the argument is the body
  of the response (\<open>Malformed\<close> when the request fails or the body is not JSON). Reading
  \<^verbatim>\<open>data.screenshot\<close> of \<^verbatim>\<open>null\<close> throws into the \<^verbatim>\<open>catch\<close> like the other failures, and
  so does a screenshot that cannot be converted to a string for the data URL; both come
  before anything is written.
\<close>

definition handleSend_settled :: "frame \<Rightarrow> app \<Rightarrow> app" where
  "handleSend_settled resp a =
     (let tried =
        (case JSON_parse resp of
           Inl e \<Rightarrow> Inl e
         | Inr data \<Rightarrow>
            (case js_get data ''screenshot'' of
               Inl e \<Rightarrow> Inl e
             | Inr sc \<Rightarrow>
                 (case (if truthy sc then
                          (case js_toString sc of
                             Inl e \<Rightarrow> Inl e
                           | Inr s \<Rightarrow>
                               Inr (a\<lparr>browserScreenshot :=
                                      Some (''data:image/png;base64,'' @ s)\<rparr>))
                        else Inr a) of
                    Inl e \<Rightarrow> Inl e
                  | Inr a1 \<Rightarrow>
                      Inr (in_store (addMessage
                             \<lparr>msg_id = clock a + 1, role = ''assistant'',
                              content = fld data ''response'', is_error = False\<rparr>) a1))));
          a2 = (case tried of
                  Inl e \<Rightarrow>
                    in_store (addMessage
                      \<lparr>msg_id = clock a + 1, role = ''assistant'',
                       content = JStr ''Sorry, I encountered an error. Please try again.'',
                       is_error = True\<rparr>) a
                | Inr a' \<Rightarrow> a')
      in a2\<lparr>isLoading := False\<rparr>)"

subsection \<open>Events\<close>

text \<open>
  Everything that can happen to the component: the mount effect and its cleanup, the
  events of a socket (the platform sets its \<^verbatim>\<open>readyState\<close> before it calls the
  handler; a socket that was never created has no handlers), time passing, the ping
  interval firing, and the user typing, choosing a mode and sending, with the
  request of \<^verbatim>\<open>handleSend\<close> settling later. No order of delivery is assumed.
  \<^verbatim>\<open>handleNavigate\<close> is left out: it writes the URL and the screenshot of the browser
  view only.
\<close>

datatype event =
    Mount
  | Unmount
  | WsOpen nat
  | WsMessage nat frame
  | WsClose nat
  | WsError nat
  | Elapse nat
  | PingTick
  | Typed string
  | ModeChosen string
  | Send
  | Settled frame

fun step_event :: "event \<Rightarrow> app \<Rightarrow> app" where
  "step_event Mount a = mount a"
| "step_event Unmount a = cleanup a"
| "step_event (WsOpen w) a =
     (if w < length (sockets a) then onopen w (set_readyState w OPEN a) else a)"
| "step_event (WsMessage w fr) a =
     (if w < length (sockets a) then onmessage fr a else a)"
| "step_event (WsClose w) a =
     (if w < length (sockets a) then onclose (set_readyState w CLOSED a) else a)"
| "step_event (WsError w) a =
     (if w < length (sockets a) then onerror a else a)"
| "step_event (Elapse d) a = elapse d a"
| "step_event PingTick a = ping_tick a"
| "step_event (Typed s) a = a\<lparr>input := s\<rparr>"
| "step_event (ModeChosen m) a = in_store (setMode m) a"
| "step_event Send a = handleSend (input a) (isLoading a) (currentMode (store a)) a"
| "step_event (Settled r) a = handleSend_settled r a"

definition run :: "event list \<Rightarrow> app \<Rightarrow> app" where
  "run evs a = fold step_event evs a"

section \<open>Read models and sample frames\<close>

text \<open>
  What the presentation reads of the automation state: whether a task is shown as
  active, its status object, and the recorded steps.
\<close>

definition session :: "store \<Rightarrow> bool \<times> status_obj option \<times> step_obj list" where
  "session st = (isAutomating st, automationStatus st, automationSteps st)"

text \<open>
  The kind a frame declares: its \<^verbatim>\<open>type\<close> member, \<^verbatim>\<open>undefined\<close> when it has none or
  the text does not parse.
\<close>

definition frame_type :: "frame \<Rightarrow> jsval" where
  "frame_type fr = (case JSON_parse fr of Inl e \<Rightarrow> JUndefined | Inr data \<Rightarrow> fld data ''type'')"

text \<open>The cleared automation state: what \<^verbatim>\<open>resetAutomationState\<close> leaves.\<close>

definition is_reset :: "store \<Rightarrow> bool" where
  "is_reset st = (session st = (False, None, []))"

text \<open>The reconnect timers that are pending.\<close>

definition reconnect_pending :: "app \<Rightarrow> timeout list" where
  "reconnect_pending a = filter (\<lambda>t. cb t = Reconnect) (timeouts a)"

text \<open>
  The invariant behind the single reconnect timer: timer ids are positive, below the
  id counter and pairwise distinct, and every pending reconnect timer is the one the
  ref names.
\<close>

definition timers_ok :: "app \<Rightarrow> bool" where
  "timers_ok a =
     (0 < nextTimer a \<and> distinct (map timer_id (timeouts a)) \<and>
      (\<forall>t \<in> set (timeouts a). 0 < timer_id t \<and> timer_id t < nextTimer a) \<and>
      (\<forall>t \<in> set (timeouts a). cb t = Reconnect \<longrightarrow>
          reconnectTimeoutRef a = Some (timer_id t)))"

text \<open>The frames of the scenarios: start, progress, a screenshot, complete, error.\<close>

definition start_frame :: frame where
  "start_frame =
     Json (JObj [(''type'', JStr ''automation_start''), (''status'', JStr ''Working...''),
                 (''message'', JStr ''Preparing'')])"

definition progress_frame :: frame where
  "progress_frame =
     Json (JObj [(''type'', JStr ''automation_status''), (''status'', JStr ''Working...''),
                 (''message'', JStr ''Clicking button''), (''action'', JStr ''click''),
                 (''step'', JNum 2), (''maxSteps'', JNum 5)])"

definition screenshot_frame :: "string \<Rightarrow> frame" where
  "screenshot_frame img =
     Json (JObj [(''type'', JStr ''screenshot_update''), (''screenshot'', JStr img)])"

definition complete_frame :: frame where
  "complete_frame = Json (JObj [(''type'', JStr ''automation_complete'')])"

definition error_frame :: frame where
  "error_frame =
     Json (JObj [(''type'', JStr ''automation_error''),
                 (''error'', JStr ''navigation timeout'')])"

lemmas frame_defs =
  start_frame_def progress_frame_def screenshot_frame_def complete_frame_def error_frame_def

lemmas store_defs =
  setIsAutomating_def setAutomationStatus_def addAutomationStep_def
  clearAutomationSteps_def resetAutomationState_def setUrl_def setMode_def addMessage_def
  in_store_def

lemmas handler_defs =
  run_def app_init_def store_init_def mount_def cleanup_def connectWebSocket_def
  onopen_def onclose_def onerror_def onmessage_def onmessage_try_def
  set_readyState_def readyState_of_def ref_set_def setTimeout_def clearTimeout_def
  fld_def js_or_def elapse_def run_until.simps next_due_def fire_def run_callback_def
  ping_tick_def handleSend_def handleSend_settled_def
  trim_def toLowerCase_def lower_char_def upper_units_def lower_units_def is_space_def
  number_toString_def

section \<open>Frames and their kinds\<close>

lemma frame_typeD:
  assumes "frame_type fr = JStr k"
  obtains data where "fr = Json data" "js_get data ''type'' = Inr (JStr k)"
proof (cases fr)
  case Malformed
  with assms show ?thesis by (simp add: frame_type_def)
next
  case (Json data)
  with assms have "js_get data ''type'' = Inr (JStr k)"
    by (cases "js_get data ''type''") (simp_all add: frame_type_def fld_def)
  with Json show ?thesis by (rule that)
qed

section \<open>Effect of a frame on the timers\<close>

lemma onmessage_ref [simp]: "reconnectTimeoutRef (onmessage fr a) = reconnectTimeoutRef a"
  by (simp add: onmessage_def onmessage_try_def Let_def in_store_def setTimeout_def
      split: sum.splits)

lemma onmessage_clock [simp]: "clock (onmessage fr a) = clock a"
  by (simp add: onmessage_def onmessage_try_def Let_def in_store_def setTimeout_def
      split: sum.splits)

lemma onmessage_timeouts:
  "timeouts (onmessage fr a) = timeouts a \<and> nextTimer (onmessage fr a) = nextTimer a \<or>
   (\<exists>d. timeouts (onmessage fr a) =
          timeouts a @ [\<lparr>timer_id = nextTimer a, due = d, cb = ResetAutomation\<rparr>] \<and>
        nextTimer (onmessage fr a) = Suc (nextTimer a))"
  by (simp add: onmessage_def onmessage_try_def Let_def in_store_def setTimeout_def
      split: sum.splits)

subsection \<open>The timer invariant\<close>

lemma timers_ok_init: "timers_ok app_init"
  by (simp add: timers_ok_def app_init_def)

text \<open>Changes that touch neither the timeouts, nor the ref, nor the id counter.\<close>

lemma timers_ok_same:
  assumes "timers_ok a" "timeouts b = timeouts a" "nextTimer b = nextTimer a"
    "reconnectTimeoutRef b = reconnectTimeoutRef a"
  shows "timers_ok b"
  using assms by (simp add: timers_ok_def)

text \<open>A new timeout with the next id; a reconnect timer only together with the ref.\<close>

lemma timers_ok_new:
  assumes "timers_ok a"
    and "timeouts b = timeouts a @ [\<lparr>timer_id = nextTimer a, due = d, cb = c\<rparr>]"
    and "nextTimer b = Suc (nextTimer a)"
    and "c = ResetAutomation \<and> reconnectTimeoutRef b = reconnectTimeoutRef a \<or>
         reconnect_pending a = [] \<and> reconnectTimeoutRef b = Some (nextTimer a)"
  shows "timers_ok b"
proof -
  have fresh: "timer_id t \<noteq> nextTimer a" if "t \<in> set (timeouts a)" for t
    using assms(1) that by (fastforce simp: timers_ok_def)
  have "distinct (map timer_id (timeouts b))"
    using assms(1) fresh by (auto simp: assms(2) timers_ok_def)
  moreover have "\<forall>t \<in> set (timeouts b). 0 < timer_id t \<and> timer_id t < nextTimer b"
    using assms(1) by (auto simp: assms(2,3) timers_ok_def less_Suc_eq)
  moreover have "\<forall>t \<in> set (timeouts b). cb t = Reconnect \<longrightarrow>
      reconnectTimeoutRef b = Some (timer_id t)"
    using assms(1,4)
    by (auto simp: assms(2) timers_ok_def reconnect_pending_def filter_empty_conv)
  ultimately show ?thesis
    using assms(1) by (simp add: timers_ok_def assms(3))
qed

text \<open>Clearing the timeout the ref names leaves no reconnect timer pending.\<close>

lemma timers_ok_clear:
  assumes "timers_ok a" "reconnectTimeoutRef a = Some i"
    "timeouts b = filter (\<lambda>t. timer_id t \<noteq> i) (timeouts a)" "nextTimer b = nextTimer a"
  shows "timers_ok b"
proof -
  have "distinct (map timer_id (timeouts b))"
    using assms(1) by (simp add: assms(3) timers_ok_def distinct_map_filter)
  moreover have "\<forall>t \<in> set (timeouts b). cb t \<noteq> Reconnect"
    using assms(1,2) by (auto simp: assms(3) timers_ok_def)
  ultimately show ?thesis
    using assms(1) by (auto simp: timers_ok_def assms(3,4))
qed

lemma timers_ok_onmessage:
  assumes "timers_ok a" shows "timers_ok (onmessage fr a)"
  using onmessage_timeouts[of fr a]
proof (elim disjE exE conjE)
  assume "timeouts (onmessage fr a) = timeouts a" "nextTimer (onmessage fr a) = nextTimer a"
  then show ?thesis by (intro timers_ok_same[OF assms]) simp_all
next
  fix d
  assume "timeouts (onmessage fr a) =
      timeouts a @ [\<lparr>timer_id = nextTimer a, due = d, cb = ResetAutomation\<rparr>]"
    "nextTimer (onmessage fr a) = Suc (nextTimer a)"
  then show ?thesis
    by (intro timers_ok_new[OF assms, where d = d and c = ResetAutomation]) simp_all
qed

lemma no_pending_if_unset:
  assumes "timers_ok a" "\<not> ref_set (reconnectTimeoutRef a)"
  shows "reconnect_pending a = []"
  using assms
  by (fastforce simp: timers_ok_def ref_set_def reconnect_pending_def filter_empty_conv
      split: option.splits)

lemma timers_ok_onclose:
  assumes "timers_ok a" shows "timers_ok (onclose a)"
proof (cases "ref_set (reconnectTimeoutRef a)")
  case True
  show ?thesis
    by (rule timers_ok_same[OF assms]) (simp_all add: onclose_def Let_def True)
next
  case False
  show ?thesis
    by (rule timers_ok_new[OF assms, where d = "clock a + 3000" and c = Reconnect])
      (simp_all add: onclose_def Let_def False setTimeout_def no_pending_if_unset[OF assms False])
qed

lemma timers_ok_onopen:
  assumes "timers_ok a" shows "timers_ok (onopen w a)"
proof (cases "ref_set (reconnectTimeoutRef a)")
  case True
  then obtain i where i: "reconnectTimeoutRef a = Some i"
    by (auto simp: ref_set_def split: option.splits)
  show ?thesis
    by (rule timers_ok_clear[OF assms i])
      (simp_all add: onopen_def Let_def True[unfolded i] clearTimeout_def i)
next
  case False
  show ?thesis
    by (rule timers_ok_same[OF assms]) (simp_all add: onopen_def Let_def False)
qed

lemma timers_ok_cleanup:
  assumes "timers_ok a" shows "timers_ok (cleanup a)"
proof (cases "ref_set (reconnectTimeoutRef a)")
  case True
  then obtain i where i: "reconnectTimeoutRef a = Some i"
    by (auto simp: ref_set_def split: option.splits)
  show ?thesis
    by (rule timers_ok_clear[OF assms i])
      (simp_all add: cleanup_def Let_def True[unfolded i] clearTimeout_def i
        set_readyState_def split: option.splits)
next
  case False
  show ?thesis
    by (rule timers_ok_same[OF assms])
      (simp_all add: cleanup_def Let_def False set_readyState_def split: option.splits)
qed

lemma remove1_key_distinct:
  assumes "distinct (map f xs)"
  shows "distinct (map f (remove1 x xs))"
proof -
  from assms have "distinct xs" and inj: "inj_on f (set xs)"
    by (simp_all add: distinct_map)
  then have "distinct (remove1 x xs)"
    by simp
  moreover have "inj_on f (set (remove1 x xs))"
    using inj set_remove1_subset by (rule inj_on_subset)
  ultimately show ?thesis
    by (simp add: distinct_map)
qed

lemma remove1_key_other:
  assumes "distinct (map f xs)" "x \<in> set xs" "y \<in> set (remove1 x xs)"
  shows "y \<in> set xs \<and> f y \<noteq> f x"
proof -
  from assms(1) have d: "distinct xs" and inj: "inj_on f (set xs)"
    by (simp_all add: distinct_map)
  from assms(3) d have y: "y \<in> set xs" "y \<noteq> x"
    by simp_all
  from inj y(1) assms(2) y(2) have "f y \<noteq> f x"
    by (auto dest: inj_onD)
  with y(1) show ?thesis by simp
qed


lemma timers_ok_fire:
  assumes "timers_ok a" "t \<in> set (timeouts a)"
  shows "timers_ok (fire t a)"
proof -
  have d: "distinct (map timer_id (timeouts a))"
    using assms(1) by (simp add: timers_ok_def)
  note other = remove1_key_other[OF d assms(2)]
  have nt: "nextTimer (fire t a) = nextTimer a"
    by (cases "cb t") (simp_all add: fire_def run_callback_def in_store_def connectWebSocket_def)
  have rf: "reconnectTimeoutRef (fire t a) =
      (if cb t = Reconnect then None else reconnectTimeoutRef a)"
    by (cases "cb t") (simp_all add: fire_def run_callback_def in_store_def connectWebSocket_def)
  have "distinct (map timer_id (timeouts (fire t a)))"
    using d by (simp add: remove1_key_distinct)
  moreover have "0 < timer_id u \<and> timer_id u < nextTimer (fire t a)"
    if "u \<in> set (timeouts (fire t a))" for u
  proof -
    from that have "u \<in> set (remove1 t (timeouts a))"
      by simp
    then have "u \<in> set (timeouts a)"
      by (rule other[THEN conjunct1])
    with assms(1) show ?thesis
      by (simp add: nt timers_ok_def)
  qed
  moreover have "reconnectTimeoutRef (fire t a) = Some (timer_id u)"
    if u: "u \<in> set (timeouts (fire t a))" "cb u = Reconnect" for u
  proof -
    from u(1) have "u \<in> set (remove1 t (timeouts a))"
      by simp
    then have ua: "u \<in> set (timeouts a)" and ne: "timer_id u \<noteq> timer_id t"
      by (rule other[THEN conjunct1], rule other[THEN conjunct2])
    from assms(1) ua u(2) have ru: "reconnectTimeoutRef a = Some (timer_id u)"
      by (simp add: timers_ok_def)
    show ?thesis
    proof (cases "cb t")
      case ResetAutomation
      with ru show ?thesis by (simp add: rf)
    next
      case Reconnect
      with assms have "reconnectTimeoutRef a = Some (timer_id t)"
        by (simp add: timers_ok_def)
      with ru ne show ?thesis by simp
    qed
  qed
  ultimately show ?thesis
    using assms(1) unfolding timers_ok_def nt by blast
qed

lemma timers_ok_run_until: "timers_ok a \<Longrightarrow> timers_ok (run_until target a)"
proof (induction target a rule: run_until.induct)
  case (1 target a)
  show ?case
  proof (cases "next_due target a")
    case None
    then have "run_until target a = a\<lparr>clock := max (clock a) target\<rparr>"
      by (subst run_until.simps) simp
    then show ?thesis
      by (intro timers_ok_same[OF "1.prems"]) simp_all
  next
    case (Some t)
    then have "run_until target a = run_until target (fire t a)"
      by (subst run_until.simps) simp
    moreover have "timers_ok (fire t a)"
      using "1.prems" next_due_mem[OF Some] by (rule timers_ok_fire)
    ultimately show ?thesis
      using "1.IH"[OF Some] by simp
  qed
qed

lemma timers_ok_mount: 
  assumes "timers_ok a" shows "timers_ok (mount a)"
  by (rule timers_ok_same[OF assms])
    (simp_all add: mount_def connectWebSocket_def split: prod.splits)

lemma timers_ok_step:
  assumes "timers_ok a" shows "timers_ok (step_event ev a)"
proof (cases ev)
  case Mount
  then show ?thesis by (simp add: timers_ok_mount[OF assms])
next
  case Unmount
  then show ?thesis by (simp add: timers_ok_cleanup[OF assms])
next
  case (WsOpen w)
  have "timers_ok (set_readyState w OPEN a)"
    by (rule timers_ok_same[OF assms]) (simp_all add: set_readyState_def)
  then show ?thesis using assms by (simp add: WsOpen timers_ok_onopen)
next
  case (WsMessage w fr)
  then show ?thesis using assms by (simp add: timers_ok_onmessage)
next
  case (WsClose w)
  have "timers_ok (set_readyState w CLOSED a)"
    by (rule timers_ok_same[OF assms]) (simp_all add: set_readyState_def)
  then show ?thesis using assms by (simp add: WsClose timers_ok_onclose)
next
  case (WsError w)
  have "timers_ok (onerror a)"
    by (rule timers_ok_same[OF assms]) (simp_all add: onerror_def)
  then show ?thesis using assms by (simp add: WsError)
next
  case (Elapse d)
  then show ?thesis by (simp add: elapse_def timers_ok_run_until[OF assms])
next
  case PingTick
  show ?thesis unfolding PingTick
    by (rule timers_ok_same[OF assms]) (simp_all add: ping_tick_def split: option.splits)
next
  case (Typed s)
  show ?thesis unfolding Typed
    by (rule timers_ok_same[OF assms]) simp_all
next
  case (ModeChosen m)
  show ?thesis unfolding ModeChosen
    by (rule timers_ok_same[OF assms]) (simp_all add: in_store_def)
next
  case Send
  show ?thesis unfolding Send
    by (rule timers_ok_same[OF assms]) (simp_all add: handleSend_def Let_def in_store_def)
next
  case (Settled r)
  show ?thesis unfolding Settled
    by (rule timers_ok_same[OF assms])
      (simp_all add: handleSend_settled_def Let_def in_store_def split: sum.splits)
qed

lemma timers_ok_run: "timers_ok a \<Longrightarrow> timers_ok (run evs a)"
  unfolding run_def by (induction evs arbitrary: a) (simp_all add: timers_ok_step)

lemma at_most_one_by_key:
  assumes "distinct (map f xs)" "\<And>x. x \<in> set xs \<Longrightarrow> P x \<Longrightarrow> f x = c"
  shows "length (filter P xs) \<le> 1"
  using assms
proof (induction xs)
  case Nil
  then show ?case by simp
next
  case (Cons x xs)
  show ?case
  proof (cases "P x")
    case True
    have "\<not> P y" if "y \<in> set xs" for y
    proof
      assume "P y"
      with Cons.prems(2)[of y] Cons.prems(2)[of x] True that have "f y = f x"
        by simp
      with that Cons.prems(1) show False
        by (auto simp: image_iff)
    qed
    then have "filter P xs = []"
      by (simp add: filter_empty_conv)
    with True show ?thesis by simp
  next
    case False
    with Cons show ?thesis by simp
  qed
qed

lemma timers_ok_single:
  assumes "timers_ok a"
  shows "length (reconnect_pending a) \<le> 1"
proof (cases "reconnectTimeoutRef a")
  case None
  with assms have "reconnect_pending a = []"
    by (auto simp: timers_ok_def reconnect_pending_def filter_empty_conv)
  then show ?thesis by simp
next
  case (Some i)
  have "distinct (map timer_id (timeouts a))"
    using assms by (simp add: timers_ok_def)
  moreover have "timer_id t = i" if "t \<in> set (timeouts a)" "cb t = Reconnect" for t
    using assms that Some by (auto simp: timers_ok_def)
  ultimately show ?thesis
    unfolding reconnect_pending_def by (rule at_most_one_by_key)
qed

section \<open>Timers running\<close>

lemma onmessage_keeps_pending:
  "t \<in> set (timeouts a) \<Longrightarrow> t \<in> set (timeouts (onmessage fr a))"
  using onmessage_timeouts[of fr a] by auto

lemma frames_keep_pending:
  "t \<in> set (timeouts a) \<Longrightarrow> t \<in> set (timeouts (fold onmessage frs a))"
  by (induction frs arbitrary: a) (simp_all add: onmessage_keeps_pending)

lemma frames_clock [simp]: "clock (fold onmessage frs a) = clock a"
  by (induction frs arbitrary: a) simp_all

lemma earliest_None: "earliest ts = None \<longleftrightarrow> ts = []"
  by (cases ts) (simp_all split: option.splits)

lemma next_due_due: "next_due target a = Some t \<Longrightarrow> due t \<le> target"
  unfolding next_due_def by (drule earliest_mem) simp

lemma next_due_None: "next_due target a = None \<longleftrightarrow> (\<forall>t \<in> set (timeouts a). target < due t)"
  by (auto simp: next_due_def earliest_None filter_empty_conv not_le)

lemma store_fire:
  "store (fire t a) =
     (if cb t = ResetAutomation then resetAutomationState (store a) else store a)"
  by (cases "cb t") (simp_all add: fire_def run_callback_def in_store_def connectWebSocket_def)

lemma clock_fire: "clock (fire t a) = max (clock a) (due t)"
  by (cases "cb t") (simp_all add: fire_def run_callback_def in_store_def connectWebSocket_def)

lemma is_reset_reset [simp]: "is_reset (resetAutomationState st)"
  by (simp add: is_reset_def session_def resetAutomationState_def)

lemma run_until_clock: "clock (run_until target a) = max (clock a) target"
proof (induction target a rule: run_until.induct)
  case (1 target a)
  show ?case
  proof (cases "next_due target a")
    case None
    then show ?thesis by (subst run_until.simps) simp
  next
    case (Some t)
    then have "run_until target a = run_until target (fire t a)"
      by (subst run_until.simps) simp
    with "1.IH"[OF Some] next_due_due[OF Some] show ?thesis
      by (simp add: clock_fire)
  qed
qed

text \<open>Once the automation state is reset, the timers leave it so.\<close>

lemma run_until_stays_reset: "is_reset (store a) \<Longrightarrow> is_reset (store (run_until target a))"
proof (induction target a rule: run_until.induct)
  case (1 target a)
  show ?case
  proof (cases "next_due target a")
    case None
    then have "run_until target a = a\<lparr>clock := max (clock a) target\<rparr>"
      by (subst run_until.simps) simp
    with "1.prems" show ?thesis by simp
  next
    case (Some t)
    then have "run_until target a = run_until target (fire t a)"
      by (subst run_until.simps) simp
    moreover have "is_reset (store (fire t a))"
      using "1.prems" by (simp add: store_fire)
    ultimately show ?thesis using "1.IH"[OF Some] by simp
  qed
qed

text \<open>A pending reset that is due by the target has the state reset at the target.\<close>

lemma run_until_fires_reset:
  "t \<in> set (timeouts a) \<Longrightarrow> cb t = ResetAutomation \<Longrightarrow> due t \<le> target \<Longrightarrow>
     is_reset (store (run_until target a))"
proof (induction target a rule: run_until.induct)
  case (1 target a)
  from "1.prems" have "next_due target a \<noteq> None"
    by (auto simp: next_due_None not_less)
  then obtain u where u: "next_due target a = Some u"
    by auto
  then have eq: "run_until target a = run_until target (fire u a)"
    by (subst run_until.simps) simp
  show ?case
  proof (cases "cb u")
    case ResetAutomation
    then have "is_reset (store (fire u a))"
      by (simp add: store_fire)
    then show ?thesis
      unfolding eq by (rule run_until_stays_reset)
  next
    case Reconnect
    with "1.prems"(2) have "t \<noteq> u" by auto
    with "1.prems"(1) have "t \<in> set (timeouts (fire u a))"
      by simp
    then show ?thesis
      unfolding eq using "1.prems"(2,3) by (rule "1.IH"[OF u])
  qed
qed

text \<open>A timeout that is not yet due stays pending.\<close>

lemma run_until_keeps_later:
  "t \<in> set (timeouts a) \<Longrightarrow> target < due t \<Longrightarrow> t \<in> set (timeouts (run_until target a))"
proof (induction target a rule: run_until.induct)
  case (1 target a)
  show ?case
  proof (cases "next_due target a")
    case None
    then have "run_until target a = a\<lparr>clock := max (clock a) target\<rparr>"
      by (subst run_until.simps) simp
    with "1.prems" show ?thesis by simp
  next
    case (Some u)
    then have eq: "run_until target a = run_until target (fire u a)"
      by (subst run_until.simps) simp
    from next_due_due[OF Some] "1.prems"(2) have "t \<noteq> u" by auto
    with "1.prems"(1) have "t \<in> set (timeouts (fire u a))"
      by simp
    then show ?thesis
      unfolding eq using "1.prems"(2) by (rule "1.IH"[OF Some])
  qed
qed

lemma terminal_frame_schedules_reset:
  assumes "frame_type fr = JStr k"
    and "k = ''automation_complete'' \<and> hold = 2000 \<or> k = ''automation_error'' \<and> hold = 3000"
  shows "\<lparr>timer_id = nextTimer a, due = clock a + hold, cb = ResetAutomation\<rparr>
           \<in> set (timeouts (onmessage fr a))"
proof -
  from assms(1) obtain data where "fr = Json data" "js_get data ''type'' = Inr (JStr k)"
    by (rule frame_typeD)
  with assms(2) show ?thesis
    by (auto simp: onmessage_def onmessage_try_def setTimeout_def in_store_def)
qed

subsection \<open>handleSend and the timers\<close>

lemma handleSend_timeouts [simp]: "timeouts (handleSend inp loading mode a) = timeouts a"
  by (simp add: handleSend_def Let_def in_store_def)

lemma handleSend_clock [simp]: "clock (handleSend inp loading mode a) = clock a"
  by (simp add: handleSend_def Let_def in_store_def)

text \<open>With no reset pending, the timers leave the store as it is.\<close>

lemma run_until_no_reset:
  "list_all (\<lambda>t. cb t \<noteq> ResetAutomation) (timeouts a) \<Longrightarrow>
     store (run_until target a) = store a"
proof (induction target a rule: run_until.induct)
  case (1 target a)
  show ?case
  proof (cases "next_due target a")
    case None
    then show ?thesis by (subst run_until.simps) simp
  next
    case (Some u)
    then have eq: "run_until target a = run_until target (fire u a)"
      by (subst run_until.simps) simp
    from next_due_mem[OF Some] "1.prems" have "cb u \<noteq> ResetAutomation"
      by (simp add: list_all_iff)
    then have st: "store (fire u a) = store a"
      by (simp add: store_fire)
    have "list_all (\<lambda>t. cb t \<noteq> ResetAutomation) (timeouts (fire u a))"
      using "1.prems" set_remove1_subset[of u "timeouts a"]
      by (auto simp: list_all_iff)
    from "1.IH"[OF Some this] show ?thesis
      by (simp add: eq st)
  qed
qed

section \<open>The step history\<close>

text \<open>
  Claim C1. The claim is that eight frame events with an image leave at most five
  records in the buffer, the oldest being evicted, and that the last three are shown.
  The comment at the call of \<^verbatim>\<open>addAutomationStep\<close> says "limit to last 5", but the
  store only appends: after a start frame and eight screenshot frames the buffer holds
  eight records. The projection by \<^verbatim>\<open>slice(-3)\<close> does show the last three.
\<close>

theorem history_not_capped:
  "length (automationSteps (store (run
      (Mount # WsOpen 0 # WsMessage 0 start_frame #
       map (\<lambda>img. WsMessage 0 (screenshot_frame img))
         [''shot1'', ''shot2'', ''shot3'', ''shot4'', ''shot5'', ''shot6'', ''shot7'', ''shot8'']) app_init))) = 8 \<and>
   slice_last3 (automationSteps (store (run
      (Mount # WsOpen 0 # WsMessage 0 start_frame #
       map (\<lambda>img. WsMessage 0 (screenshot_frame img))
         [''shot1'', ''shot2'', ''shot3'', ''shot4'', ''shot5'', ''shot6'', ''shot7'', ''shot8'']) app_init))) =
   map (\<lambda>img. \<lparr>step_action = JStr ''update'', step_message = JStr ''Updated'',
                step_screenshot = JStr img\<rparr>) [''shot6'', ''shot7'', ''shot8'']"
  by (simp add: handler_defs store_defs frame_defs slice_last3_def)

text \<open>
  Claim C8. The claim is that the record appended for a frame event carries the action
  and message of the latest progress event. The handler reads \<^verbatim>\<open>automationStatus\<close>
  from the render that created it, which is the first one: after a start and a progress
  frame (action click, message "Clicking button") the record appended for a screenshot
  still carries the defaults "update" and "Updated".
\<close>

theorem frame_record_reuses_mount_status:
  "automationStatus (store (run
      [Mount, WsOpen 0, WsMessage 0 start_frame, WsMessage 0 progress_frame,
       WsMessage 0 (screenshot_frame ''img'')] app_init)) =
   Some \<lparr>status = JStr ''Working...'', message = JStr ''Clicking button'',
         action = JStr ''click'', step = JNum 2, maxSteps = JNum 5\<rparr> \<and>
   automationSteps (store (run
      [Mount, WsOpen 0, WsMessage 0 start_frame, WsMessage 0 progress_frame,
       WsMessage 0 (screenshot_frame ''img'')] app_init)) =
   [\<lparr>step_action = JStr ''update'', step_message = JStr ''Updated'',
     step_screenshot = JStr ''img''\<rparr>]"
  by (simp add: handler_defs store_defs frame_defs)

text \<open>
  Claim C4. The claim is that the step buffer is cleared whenever a task starts, by a
  start frame or by the optimistic trigger of \<^verbatim>\<open>handleSend\<close>. The start frame does clear
  it; \<^verbatim>\<open>handleSend\<close> never writes the steps. Here a first task leaves one record, its
  complete frame arrives, and within the hold the user sends a second task: the state
  is the placeholder of a starting task, with the record of the first task still in
  the buffer.
\<close>

theorem optimistic_start_keeps_steps:
  "session (store (run
      [Mount, WsOpen 0, Typed ''Open YouTube'', Send, WsMessage 0 start_frame,
       WsMessage 0 (screenshot_frame ''old''), WsMessage 0 complete_frame,
       Settled (Json (JObj [(''response'', JStr ''Done'')])),
       Typed ''Open Gmail'', Send] app_init)) =
   (True,
    Some \<lparr>status = JStr ''Working...'', message = JStr ''Preparing to assist you'',
          action = JUndefined, step = JUndefined, maxSteps = JUndefined\<rparr>,
    [\<lparr>step_action = JStr ''update'', step_message = JStr ''Updated'',
      step_screenshot = JStr ''old''\<rparr>]) \<and>
   automationSteps (store (handleSend inp loading mode a)) = automationSteps (store a) \<and>
   automationSteps (store (onmessage start_frame a)) = []"
proof -
  have "automationSteps (store (handleSend inp loading mode a)) = automationSteps (store a)"
    by (simp add: handleSend_def Let_def store_defs)
  moreover have "automationSteps (store (onmessage start_frame a)) = []"
    by (simp add: onmessage_def onmessage_try_def start_frame_def store_defs)
  moreover have "session (store (run
      [Mount, WsOpen 0, Typed ''Open YouTube'', Send, WsMessage 0 start_frame,
       WsMessage 0 (screenshot_frame ''old''), WsMessage 0 complete_frame,
       Settled (Json (JObj [(''response'', JStr ''Done'')])),
       Typed ''Open Gmail'', Send] app_init)) =
   (True,
    Some \<lparr>status = JStr ''Working...'', message = JStr ''Preparing to assist you'',
          action = JUndefined, step = JUndefined, maxSteps = JUndefined\<rparr>,
    [\<lparr>step_action = JStr ''update'', step_message = JStr ''Updated'',
      step_screenshot = JStr ''old''\<rparr>])"
    by (simp add: handler_defs store_defs frame_defs session_def Let_def)
  ultimately show ?thesis by simp
qed

section \<open>Frames with missing fields, and frames received while idle\<close>

text \<open>
  Claim C2, as amended. A frame of a kind that has required fields (start, progress,
  error) raises nothing in the handler, whatever fields it lacks, and it is applied,
  not dropped: a field that is missing (status, message, action, step, maxSteps or
  error) reads as \<^verbatim>\<open>undefined\<close> and is stored as such. A
  start frame sets \<^verbatim>\<open>isAutomating\<close>, clears the steps and stores its status and message;
  a progress frame stores its status, message, action, step and maxSteps; an error
  frame stores its error member as the message and schedules the reset 3000 ms later.
  Whenever the \<^verbatim>\<open>try\<close> block does raise, on any frame, the \<^verbatim>\<open>catch\<close> leaves the whole
  state as it was.
\<close>

theorem frame_fields_not_validated:
  assumes "map_of kvs ''type'' = Some (JStr k)"
    and "k = ''automation_start'' \<or> k = ''automation_status'' \<or> k = ''automation_error''"
  shows "(\<exists>a'. onmessage_try (Json (JObj kvs)) a = Inr a' \<and>
               onmessage (Json (JObj kvs)) a = a') \<and>
         (f \<in> set [''status'', ''message'', ''action'', ''step'', ''maxSteps'', ''error''] \<and>
          map_of kvs f = None \<longrightarrow> fld (JObj kvs) f = JUndefined) \<and>
         (k = ''automation_start'' \<longrightarrow>
            session (store (onmessage (Json (JObj kvs)) a)) =
              (True,
               Some \<lparr>status = fld (JObj kvs) ''status'', message = fld (JObj kvs) ''message'',
                     action = JUndefined, step = JUndefined, maxSteps = JUndefined\<rparr>, [])) \<and>
         (k = ''automation_status'' \<longrightarrow>
            session (store (onmessage (Json (JObj kvs)) a)) =
              (isAutomating (store a),
               Some \<lparr>status = fld (JObj kvs) ''status'', message = fld (JObj kvs) ''message'',
                     action = fld (JObj kvs) ''action'', step = fld (JObj kvs) ''step'',
                     maxSteps = fld (JObj kvs) ''maxSteps''\<rparr>,
               automationSteps (store a))) \<and>
         (k = ''automation_error'' \<longrightarrow>
            session (store (onmessage (Json (JObj kvs)) a)) =
              (isAutomating (store a),
               Some \<lparr>status = JStr ''Error'', message = fld (JObj kvs) ''error'',
                     action = JStr ''error'', step = JUndefined, maxSteps = JUndefined\<rparr>,
               automationSteps (store a)) \<and>
            timeouts (onmessage (Json (JObj kvs)) a) =
              timeouts a @
              [\<lparr>timer_id = nextTimer a, due = clock a + 3000, cb = ResetAutomation\<rparr>]) \<and>
         (onmessage_try fr a = Inl e \<longrightarrow> onmessage fr a = a)"
proof -
  note ty = assms(1)
  have 1: "\<exists>a'. onmessage_try (Json (JObj kvs)) a = Inr a' \<and>
               onmessage (Json (JObj kvs)) a = a'"
    using assms(2) by (elim disjE) (simp_all add: onmessage_def onmessage_try_def ty)
  have 2: "fld (JObj kvs) f = JUndefined" if "map_of kvs f = None"
    using that by (simp add: fld_def)
  have 3: "session (store (onmessage (Json (JObj kvs)) a)) =
              (True,
               Some \<lparr>status = fld (JObj kvs) ''status'', message = fld (JObj kvs) ''message'',
                     action = JUndefined, step = JUndefined, maxSteps = JUndefined\<rparr>, [])"
    if "k = ''automation_start''"
    using that by (simp add: onmessage_def onmessage_try_def ty store_defs session_def)
  have 4: "session (store (onmessage (Json (JObj kvs)) a)) =
              (isAutomating (store a),
               Some \<lparr>status = fld (JObj kvs) ''status'', message = fld (JObj kvs) ''message'',
                     action = fld (JObj kvs) ''action'', step = fld (JObj kvs) ''step'',
                     maxSteps = fld (JObj kvs) ''maxSteps''\<rparr>,
               automationSteps (store a))"
    if "k = ''automation_status''"
    using that by (simp add: onmessage_def onmessage_try_def ty store_defs session_def)
  have 5: "session (store (onmessage (Json (JObj kvs)) a)) =
              (isAutomating (store a),
               Some \<lparr>status = JStr ''Error'', message = fld (JObj kvs) ''error'',
                     action = JStr ''error'', step = JUndefined, maxSteps = JUndefined\<rparr>,
               automationSteps (store a)) \<and>
            timeouts (onmessage (Json (JObj kvs)) a) =
              timeouts a @
              [\<lparr>timer_id = nextTimer a, due = clock a + 3000, cb = ResetAutomation\<rparr>]"
    if "k = ''automation_error''"
    using that
    by (simp add: onmessage_def onmessage_try_def ty store_defs session_def setTimeout_def)
  have 6: "onmessage fr a = a" if "onmessage_try fr a = Inl e"
    using that by (simp add: onmessage_def)
  from 1 2 3 4 5 6 show ?thesis by blast
qed

theorem frame_fields_not_validated_witness:
  "map_of [(''type'', JStr ''automation_status'')] ''type'' = Some (JStr ''automation_status'') \<and>
   map_of [(''type'', JStr ''automation_status'')] ''status'' = None \<and>
   map_of [(''type'', JStr ''automation_status'')] ''message'' = None \<and>
   onmessage_try (Json (JObj [(''type'', JStr ''automation_status'')])) app_init =
     Inr (onmessage (Json (JObj [(''type'', JStr ''automation_status'')])) app_init) \<and>
   session (store (onmessage (Json (JObj [(''type'', JStr ''automation_status'')])) app_init)) =
     (False,
      Some \<lparr>status = JUndefined, message = JUndefined, action = JUndefined,
            step = JUndefined, maxSteps = JUndefined\<rparr>, [])"
proof -
  have t: "map_of [(''type'', JStr ''automation_status'')] ''type'' =
      Some (JStr ''automation_status'')"
    by simp
  have n: "map_of [(''type'', JStr ''automation_status'')] f = None"
    if "f \<noteq> ''type''" for f
    using that by simp
  have i: "session (store app_init) = (False, None, [])"
    by (simp add: session_def app_init_def store_init_def)
  from frame_fields_not_validated[OF t, of app_init "''status''"]
    frame_fields_not_validated[OF t, of app_init "''message''"]
    frame_fields_not_validated[OF t, of app_init "''action''"]
    frame_fields_not_validated[OF t, of app_init "''step''"]
    frame_fields_not_validated[OF t, of app_init "''maxSteps''"]
    n[of "''status''"] n[of "''message''"] n[of "''action''"] n[of "''step''"]
    n[of "''maxSteps''"] i
  show ?thesis by (auto simp: session_def)
qed

text \<open>
  Claim C2 as stated fails: a start frame without status and without message changes
  the session, from the cleared state to an active one whose status and message are
  \<^verbatim>\<open>undefined\<close>.
\<close>

theorem missing_field_counterexample:
  "frame_type (Json (JObj [(''type'', JStr ''automation_start'')])) = JStr ''automation_start'' \<and>
   fld (JObj [(''type'', JStr ''automation_start'')]) ''status'' = JUndefined \<and>
   fld (JObj [(''type'', JStr ''automation_start'')]) ''message'' = JUndefined \<and>
   session (store (run [Mount, WsOpen 0] app_init)) = (False, None, []) \<and>
   session (store (run [Mount, WsOpen 0,
       WsMessage 0 (Json (JObj [(''type'', JStr ''automation_start'')]))] app_init)) =
     (True,
      Some \<lparr>status = JUndefined, message = JUndefined, action = JUndefined,
            step = JUndefined, maxSteps = JUndefined\<rparr>, [])"
  by (simp add: handler_defs store_defs session_def frame_type_def)

text \<open>
  Claim C3, as amended. A frame that is not a start frame leaves \<^verbatim>\<open>isAutomating\<close> as
  it was, so an idle session stays idle; a frame whose kind is none of status,
  screenshot, complete and error (a pong, an unknown kind, a text that does not parse)
  leaves the whole state as it was; and \<^verbatim>\<open>resetAutomationState\<close> clears
  \<^verbatim>\<open>isAutomating\<close>, the status and the steps in one update.
\<close>

theorem only_start_sets_isAutomating:
  assumes "frame_type fr \<noteq> JStr ''automation_start''"
  shows "isAutomating (store (onmessage fr a)) = isAutomating (store a) \<and>
         (frame_type fr \<notin> JStr ` {''automation_status'', ''screenshot_update'',
              ''automation_complete'', ''automation_error''} \<longrightarrow> onmessage fr a = a) \<and>
         session (resetAutomationState st) = (False, None, [])"
proof -
  have r: "session (resetAutomationState st) = (False, None, [])"
    by (simp add: session_def resetAutomationState_def)
  show ?thesis
  proof (cases "onmessage_try fr a")
    case (Inl e)
    then show ?thesis using r by (simp add: onmessage_def)
  next
    case (Inr a')
    then obtain data ty where fr: "fr = Json data" and ty: "js_get data ''type'' = Inr ty"
      by (cases fr; cases "js_get (case fr of Json d \<Rightarrow> d) ''type''")
         (auto simp: onmessage_try_def)
    then have ft: "frame_type fr = ty"
      by (simp add: frame_type_def fld_def)
    have 1: "isAutomating (store (onmessage fr a)) = isAutomating (store a)"
      using assms unfolding ft
      by (simp add: fr onmessage_def onmessage_try_def ty store_defs setTimeout_def Let_def
          split: sum.splits)
    have 2: "onmessage fr a = a"
      if "frame_type fr \<notin> JStr ` {''automation_status'', ''screenshot_update'',
              ''automation_complete'', ''automation_error''}"
      using assms that unfolding ft
      by (simp add: fr onmessage_def onmessage_try_def ty)
    from 1 2 r show ?thesis by blast
  qed
qed

theorem only_start_sets_isAutomating_witness:
  "frame_type progress_frame \<noteq> JStr ''automation_start'' \<and>
   isAutomating (store (onmessage progress_frame app_init)) = isAutomating (store app_init) \<and>
   frame_type (Json (JObj [(''type'', JStr ''pong'')])) \<noteq> JStr ''automation_start'' \<and>
   onmessage (Json (JObj [(''type'', JStr ''pong'')])) app_init = app_init"
proof -
  have p: "frame_type progress_frame \<noteq> JStr ''automation_start''"
    by (simp add: frame_type_def fld_def progress_frame_def)
  have q: "frame_type (Json (JObj [(''type'', JStr ''pong'')])) = JStr ''pong''"
    by (simp add: frame_type_def fld_def)
  from only_start_sets_isAutomating[OF p, of app_init]
    only_start_sets_isAutomating[of "Json (JObj [(''type'', JStr ''pong'')])" app_init] p q
  show ?thesis by simp
qed

text \<open>
  Claim C3 as stated fails: the handler has no guard on the session being idle. In the
  cleared state a progress frame writes the status, and a screenshot frame appends a
  record, while \<^verbatim>\<open>isAutomating\<close> stays false.
\<close>

theorem idle_progress_counterexample:
  "session (store (run [Mount, WsOpen 0] app_init)) = (False, None, []) \<and>
   session (store (run [Mount, WsOpen 0, WsMessage 0 progress_frame] app_init)) =
     (False,
      Some \<lparr>status = JStr ''Working...'', message = JStr ''Clicking button'',
            action = JStr ''click'', step = JNum 2, maxSteps = JNum 5\<rparr>, []) \<and>
   session (store (run [Mount, WsOpen 0, WsMessage 0 (screenshot_frame ''img'')] app_init)) =
     (False, None,
      [\<lparr>step_action = JStr ''update'', step_message = JStr ''Updated'',
        step_screenshot = JStr ''img''\<rparr>])"
  by (simp add: handler_defs store_defs frame_defs session_def)

section \<open>The reset after a task ends\<close>

text \<open>
  Claim C5, as amended. A complete frame schedules the reset of the automation state
  2000 ms later and an error frame 3000 ms later, and nothing cancels it: whatever
  frames arrive before and after any part \<open>d\<close> of the hold has passed, a start frame
  included, the automation state is cleared when the hold ends.
\<close>

theorem reset_after_hold:
  assumes "frame_type fr = JStr k"
    and "k = ''automation_complete'' \<and> hold = 2000 \<or> k = ''automation_error'' \<and> hold = 3000"
    and "d < hold"
  shows "is_reset (store (elapse (hold - d)
           (fold onmessage later (elapse d (fold onmessage sooner (onmessage fr a))))))"
proof -
  let ?t = "\<lparr>timer_id = nextTimer a, due = clock a + hold, cb = ResetAutomation\<rparr>"
  let ?a1 = "fold onmessage sooner (onmessage fr a)"
  let ?a2 = "elapse d ?a1"
  let ?a3 = "fold onmessage later ?a2"
  have c1: "clock ?a1 = clock a"
    by simp
  have "?t \<in> set (timeouts ?a1)"
    by (rule frames_keep_pending) (rule terminal_frame_schedules_reset[OF assms(1,2)])
  then have "?t \<in> set (timeouts ?a2)"
    unfolding elapse_def c1 using assms(3) by (intro run_until_keeps_later) simp_all
  then have p3: "?t \<in> set (timeouts ?a3)"
    by (rule frames_keep_pending)
  have c3: "clock ?a3 = clock a + d"
    by (simp add: elapse_def run_until_clock)
  have "is_reset (store (run_until (clock a + d + (hold - d)) ?a3))"
    using p3 assms(3) by (intro run_until_fires_reset[of ?t]) simp_all
  then show ?thesis
    by (simp add: elapse_def run_until_clock)
qed

theorem reset_after_hold_witness:
  "frame_type complete_frame = JStr ''automation_complete'' \<and>
   is_reset (store (elapse 1000 (fold onmessage [start_frame]
      (elapse 1000 (fold onmessage [] (onmessage complete_frame app_init)))))) \<and>
   frame_type error_frame = JStr ''automation_error'' \<and>
   is_reset (store (elapse 3000 (fold onmessage []
      (elapse 0 (fold onmessage [] (onmessage error_frame app_init))))))"
proof -
  have c: "frame_type complete_frame = JStr ''automation_complete''"
    by (simp add: frame_type_def fld_def complete_frame_def)
  have e: "frame_type error_frame = JStr ''automation_error''"
    by (simp add: frame_type_def fld_def error_frame_def)
  from reset_after_hold[OF c, of 2000 1000 "[start_frame]" "[]" app_init]
    reset_after_hold[OF e, of 3000 0 "[]" "[]" app_init] c e
  show ?thesis by simp
qed

text \<open>
  Claim C5 as stated fails: a start frame that arrives 1000 ms after a complete frame
  starts a new task, and 1000 ms later the timer of the finished task clears it.
\<close>

theorem stale_reset_counterexample:
  "session (store (run [Mount, WsOpen 0, WsMessage 0 start_frame, WsMessage 0 complete_frame,
       Elapse 1000, WsMessage 0 start_frame] app_init)) =
     (True,
      Some \<lparr>status = JStr ''Working...'', message = JStr ''Preparing'', action = JUndefined,
            step = JUndefined, maxSteps = JUndefined\<rparr>, []) \<and>
   session (store (run [Mount, WsOpen 0, WsMessage 0 start_frame, WsMessage 0 complete_frame,
       Elapse 1000, WsMessage 0 start_frame, Elapse 1000] app_init)) = (False, None, [])"
  by (simp add: handler_defs store_defs frame_defs session_def)

section \<open>Shutdown and reconnection\<close>

text \<open>
  Claim C6. The claim is that the cleanup cancels every pending timer, closes the
  channel and causes no reconnect. With the socket open, the cleanup calls
  \<^verbatim>\<open>ws.close()\<close>; the close event then runs \<^verbatim>\<open>ws.onclose\<close>, which finds no reconnect
  scheduled and schedules one; 3000 ms later a second socket is created, and it can
  open. A reset timer that is pending at the cleanup also stays pending.
\<close>

theorem cleanup_close_reconnects:
  "reconnect_pending (run [Mount, WsOpen 0, Unmount, WsClose 0] app_init) =
     [\<lparr>timer_id = 1, due = 3000, cb = Reconnect\<rparr>] \<and>
   sockets (run [Mount, WsOpen 0, Unmount, WsClose 0, Elapse 3000] app_init) =
     [CLOSED, CONNECTING] \<and>
   sockets (run [Mount, WsOpen 0, Unmount, WsClose 0, Elapse 3000, WsOpen 1] app_init) =
     [CLOSED, OPEN] \<and>
   timeouts (run [Mount, WsOpen 0, WsMessage 0 start_frame, WsMessage 0 complete_frame,
                  Unmount] app_init) =
     [\<lparr>timer_id = 1, due = 2000, cb = ResetAutomation\<rparr>]"
  by (simp add: handler_defs store_defs frame_defs reconnect_pending_def)

text \<open>
  Claim C7. In every state the component can reach from its initial state, by any
  sequence of events (mounts, cleanups, socket opens, messages, closes and errors in
  any number and order, time passing, user actions), at most one reconnect timer is
  pending; when one is pending, \<^verbatim>\<open>ws.onclose\<close> schedules nothing; and \<^verbatim>\<open>ws.onerror\<close>
  never schedules anything.
\<close>

theorem single_reconnect_timer:
  "length (reconnect_pending (run evs app_init)) \<le> 1 \<and>
   (reconnect_pending (run evs app_init) \<noteq> [] \<longrightarrow>
      timeouts (onclose (run evs app_init)) = timeouts (run evs app_init)) \<and>
   timeouts (onerror (run evs app_init)) = timeouts (run evs app_init)"
proof -
  let ?a = "run evs app_init"
  have ok: "timers_ok ?a"
    by (rule timers_ok_run[OF timers_ok_init])
  have "timeouts (onclose ?a) = timeouts ?a" if "reconnect_pending ?a \<noteq> []"
  proof -
    have "ref_set (reconnectTimeoutRef ?a)"
      using no_pending_if_unset[OF ok] that by blast
    then show ?thesis by (simp add: onclose_def Let_def)
  qed
  moreover have "timeouts (onerror ?a) = timeouts ?a"
    by (simp add: onerror_def)
  ultimately show ?thesis
    using timers_ok_single[OF ok] by blast
qed

theorem single_reconnect_timer_witness:
  "reconnect_pending
     (run [Mount, WsOpen 0, WsClose 0, WsClose 0, WsClose 0, WsClose 0, WsClose 0] app_init) =
     [\<lparr>timer_id = 1, due = 3000, cb = Reconnect\<rparr>] \<and>
   timeouts (onclose
     (run [Mount, WsOpen 0, WsClose 0, WsClose 0, WsClose 0, WsClose 0, WsClose 0] app_init)) =
     [\<lparr>timer_id = 1, due = 3000, cb = Reconnect\<rparr>]"
proof -
  have p: "reconnect_pending
     (run [Mount, WsOpen 0, WsClose 0, WsClose 0, WsClose 0, WsClose 0, WsClose 0] app_init) =
     [\<lparr>timer_id = 1, due = 3000, cb = Reconnect\<rparr>]"
    by (simp add: handler_defs reconnect_pending_def)
  have t: "timeouts
     (run [Mount, WsOpen 0, WsClose 0, WsClose 0, WsClose 0, WsClose 0, WsClose 0] app_init) =
     [\<lparr>timer_id = 1, due = 3000, cb = Reconnect\<rparr>]"
    by (simp add: handler_defs)
  from single_reconnect_timer
    [of "[Mount, WsOpen 0, WsClose 0, WsClose 0, WsClose 0, WsClose 0, WsClose 0]"] p t
  show ?thesis by simp
qed

section \<open>The optimistic start\<close>

text \<open>
  Claim C9, as amended. When \<^verbatim>\<open>handleSend\<close> fires the optimistic start (the message is
  not blank, no request is loading, and the mode is automate or the text names a
  navigation), a second call of \<^verbatim>\<open>handleSend\<close>, from the same render or a later one,
  leaves the session as the first call left it, and that session is active: the
  trigger itself never takes it back to idle. Sending twice in a row is sending once.
  With no reset timer pending, time passing leaves the session as the trigger left it.
  A reset timer that is pending from an earlier complete or error frame is not
  cancelled by the trigger: when it falls due, the optimistic state is cleared.
\<close>

theorem optimistic_start_idempotent:
  assumes "trim inp \<noteq> []" and "\<not> loading"
    and "mode = ''automate'' \<or> js_includes (toLowerCase inp) ''navigate'' \<or>
         js_includes (toLowerCase inp) ''go to'' \<or>
         js_includes (toLowerCase inp) ''open''"
  shows "session (store (handleSend inp' loading' mode' (handleSend inp loading mode a))) =
           session (store (handleSend inp loading mode a)) \<and>
         isAutomating (store (handleSend inp loading mode a)) \<and>
         step_event Send (step_event Send a) = step_event Send a \<and>
         (list_all (\<lambda>t. cb t \<noteq> ResetAutomation) (timeouts a) \<longrightarrow>
            session (store (elapse d (handleSend inp loading mode a))) =
              session (store (handleSend inp loading mode a))) \<and>
         (t \<in> set (timeouts a) \<and> cb t = ResetAutomation \<and> due t \<le> clock a + d \<longrightarrow>
            is_reset (store (elapse d (handleSend inp loading mode a))))"
proof -
  have "step_event Send (step_event Send a) = step_event Send a"
    by (simp add: handleSend_def Let_def store_defs trim_def)
  moreover have "isAutomating (store (handleSend inp loading mode a))"
    using assms by (simp add: handleSend_def Let_def store_defs)
  moreover have "session (store (handleSend inp' loading' mode' (handleSend inp loading mode a))) =
           session (store (handleSend inp loading mode a))"
    using assms by (simp add: handleSend_def Let_def store_defs session_def)
  moreover have "session (store (elapse d (handleSend inp loading mode a))) =
      session (store (handleSend inp loading mode a))"
    if "list_all (\<lambda>t. cb t \<noteq> ResetAutomation) (timeouts a)"
  proof -
    from that have "store (run_until (clock (handleSend inp loading mode a) + d)
        (handleSend inp loading mode a)) = store (handleSend inp loading mode a)"
      by (intro run_until_no_reset) simp
    then show ?thesis
      by (simp add: elapse_def)
  qed
  moreover have "is_reset (store (elapse d (handleSend inp loading mode a)))"
    if "t \<in> set (timeouts a) \<and> cb t = ResetAutomation \<and> due t \<le> clock a + d"
    unfolding elapse_def using that by (intro run_until_fires_reset[of t]) simp_all
  ultimately show ?thesis by blast
qed

theorem optimistic_start_idempotent_witness:
  "trim ''Open Gmail'' \<noteq> [] \<and>
   js_includes (toLowerCase ''Open Gmail'') ''open'' \<and>
   session (store (handleSend ''Open Gmail'' False ''assist''
      (handleSend ''Open Gmail'' False ''assist'' app_init))) =
     session (store (handleSend ''Open Gmail'' False ''assist'' app_init)) \<and>
   isAutomating (store (handleSend ''Open Gmail'' False ''assist'' app_init)) \<and>
   session (store (elapse 5000 (handleSend ''Open Gmail'' False ''assist'' app_init))) =
     session (store (handleSend ''Open Gmail'' False ''assist'' app_init)) \<and>
   timeouts (run [Mount, WsOpen 0, WsMessage 0 start_frame, WsMessage 0 complete_frame,
                  Elapse 1000] app_init) =
     [\<lparr>timer_id = 1, due = 2000, cb = ResetAutomation\<rparr>] \<and>
   is_reset (store (elapse 1000 (handleSend ''Open Gmail'' False ''assist''
      (run [Mount, WsOpen 0, WsMessage 0 start_frame, WsMessage 0 complete_frame,
            Elapse 1000] app_init))))"
proof -
  let ?a = "run [Mount, WsOpen 0, WsMessage 0 start_frame, WsMessage 0 complete_frame,
                 Elapse 1000] app_init"
  have t: "trim ''Open Gmail'' \<noteq> []"
    by (simp add: trim_def is_space_def)
  have i: "js_includes (toLowerCase ''Open Gmail'') ''open''"
    by (simp add: toLowerCase_def lower_char_def upper_units_def lower_units_def)
  have n: "timeouts app_init = []"
    by (simp add: app_init_def)
  have p: "timeouts ?a = [\<lparr>timer_id = 1, due = 2000, cb = ResetAutomation\<rparr>]"
    by (simp add: handler_defs store_defs frame_defs)
  have c: "clock ?a = 1000"
    by (simp add: handler_defs store_defs frame_defs)
  from optimistic_start_idempotent[OF t, of False "''assist''" "''Open Gmail''" False
      "''assist''" app_init 5000]
    optimistic_start_idempotent[OF t, of False "''assist''" "''Open Gmail''" False
      "''assist''" ?a 1000 "\<lparr>timer_id = 1, due = 2000, cb = ResetAutomation\<rparr>"]
    t i n p c
  show ?thesis by simp
qed

text \<open>
  Claim C9 as stated fails in its second part: the optimistic state goes back to idle
  without any progress, complete or error event. A message sent 1000 ms after a
  complete frame sets the placeholder of a starting task, and 1000 ms later the reset
  timer of the finished task clears it.
\<close>

theorem optimistic_start_wiped_counterexample:
  "session (store (run [Mount, WsOpen 0, WsMessage 0 start_frame, WsMessage 0 complete_frame,
       Elapse 1000, Typed ''Open Gmail'', Send] app_init)) =
     (True,
      Some \<lparr>status = JStr ''Working...'', message = JStr ''Preparing to assist you'',
            action = JUndefined, step = JUndefined, maxSteps = JUndefined\<rparr>, []) \<and>
   session (store (run [Mount, WsOpen 0, WsMessage 0 start_frame, WsMessage 0 complete_frame,
       Elapse 1000, Typed ''Open Gmail'', Send, Elapse 1000] app_init)) = (False, None, [])"
  by (simp add: handler_defs store_defs frame_defs session_def Let_def)

text \<open>
  Claim C10. In any mode, a message that is sent and whose lower-cased text contains
  "navigate", "go to" or "open" fires the optimistic start: \<^verbatim>\<open>isAutomating\<close> is set and
  the status is the placeholder "Working..." with the message "Preparing to assist
  you", before the request is made.
\<close>

theorem optimistic_start_any_mode:
  assumes "trim inp \<noteq> []" and "\<not> loading"
    and "js_includes (toLowerCase inp) ''navigate'' \<or>
         js_includes (toLowerCase inp) ''go to'' \<or>
         js_includes (toLowerCase inp) ''open''"
  shows "isAutomating (store (handleSend inp loading mode a)) \<and>
         automationStatus (store (handleSend inp loading mode a)) =
           Some \<lparr>status = JStr ''Working...'', message = JStr ''Preparing to assist you'',
                 action = JUndefined, step = JUndefined, maxSteps = JUndefined\<rparr>"
  using assms by (simp add: handleSend_def Let_def store_defs)

theorem optimistic_start_any_mode_witness:
  "trim ''Open YouTube'' \<noteq> [] \<and> js_includes (toLowerCase ''Open YouTube'') ''open'' \<and>
   session (store (handleSend ''Open YouTube'' False ''assist'' app_init)) =
     (True,
      Some \<lparr>status = JStr ''Working...'', message = JStr ''Preparing to assist you'',
            action = JUndefined, step = JUndefined, maxSteps = JUndefined\<rparr>, [])"
proof -
  have t: "trim ''Open YouTube'' \<noteq> []"
    by (simp add: trim_def is_space_def)
  have i: "js_includes (toLowerCase ''Open YouTube'') ''open''"
    by (simp add: toLowerCase_def lower_char_def upper_units_def lower_units_def)
  have s: "automationSteps (store (handleSend ''Open YouTube'' False ''assist'' app_init)) = []"
    by (simp add: handleSend_def Let_def store_defs app_init_def store_init_def t)
  from optimistic_start_any_mode[of "''Open YouTube''" False "''assist''" app_init] t i s
  show ?thesis by (simp add: session_def)
qed

end
